theory Spec2Isabelle
  imports Main "HOL-Library.Sublist"
begin

section \<open>Documents\<close>

text \<open>
  The script \<^verbatim>\<open>fix-parser.py\<close> reads a file as text, which gives a Python \<^verbatim>\<open>str\<close>: a
  sequence of Unicode code points. A document is a list of code points; \<open>str\<close> turns an
  ASCII literal into one.
\<close>

type_synonym document = "nat list"

definition str :: "string \<Rightarrow> document" where
  "str s = map of_char s"

text \<open>
  The category \<^verbatim>\<open>\s\<close> of a \<^verbatim>\<open>str\<close> pattern is Unicode whitespace: the code points
  U+0009..U+000D, U+001C..U+0020, U+0085, U+00A0, U+1680, U+2000..U+200A, U+2028, U+2029,
  U+202F, U+205F and U+3000. It is not restricted to horizontal whitespace: the line feed
  (10) belongs to it.
\<close>

definition is_space :: "nat \<Rightarrow> bool" where
  "is_space c \<longleftrightarrow>
     (9 \<le> c \<and> c \<le> 13) \<or> (28 \<le> c \<and> c \<le> 32) \<or> c = 133 \<or> c = 160 \<or> c = 5760 \<or>
     (8192 \<le> c \<and> c \<le> 8202) \<or> c = 8232 \<or> c = 8233 \<or> c = 8239 \<or> c = 8287 \<or> c = 12288"

section \<open>The regular expressions of the script\<close>

text \<open>
  The three patterns use literal characters, the escapes \<^verbatim>\<open>\s\<close>, \<^verbatim>\<open>\n\<close> and \<^verbatim>\<open>\}\<close>, and
  the greedy repetition \<^verbatim>\<open>+\<close>. A compiled pattern is a sequence of items, each an atom
  taken once, one or more times, or zero or more times.
\<close>

datatype atom = Char_lit nat | Category_space

datatype item = Single atom | Repeat1 atom | Repeat0 atom

type_synonym pattern = "item list"

datatype re_error = Nothing_to_repeat | Multiple_repeat | Bad_escape | Unsupported

fun accepts :: "atom \<Rightarrow> nat \<Rightarrow> bool" where
  "accepts (Char_lit a) c = (c = a)"
| "accepts Category_space c = is_space c"

text \<open>
  Matching at the start of a string, with the priorities of a backtracking engine: a
  repetition first takes as many characters as it can and gives them back one at a time
  when the rest of the pattern fails. The result is the text after the match.
\<close>

fun match_here :: "pattern \<Rightarrow> document \<Rightarrow> document option" where
  "match_here [] s = Some s"
| "match_here (Single a # p) [] = None"
| "match_here (Single a # p) (c # cs) = (if accepts a c then match_here p cs else None)"
| "match_here (Repeat1 a # p) [] = None"
| "match_here (Repeat1 a # p) (c # cs) =
     (if accepts a c then match_here (Repeat0 a # p) cs else None)"
| "match_here (Repeat0 a # p) [] = match_here p []"
| "match_here (Repeat0 a # p) (c # cs) =
     (if accepts a c
      then (case match_here (Repeat0 a # p) cs of
              Some r \<Rightarrow> Some r
            | None \<Rightarrow> match_here p (c # cs))
      else match_here p (c # cs))"

text \<open>
  The search loop of \<^verbatim>\<open>re.search\<close>: try every start position from the left; the result
  is the text after the leftmost match, if the pattern matches anywhere.
\<close>

fun first_match :: "pattern \<Rightarrow> document \<Rightarrow> document option" where
  "first_match p [] = match_here p []"
| "first_match p (c # cs) =
     (case match_here p (c # cs) of Some r \<Rightarrow> Some r | None \<Rightarrow> first_match p cs)"

text \<open>
  The substitution loop of \<^verbatim>\<open>re.sub\<close>: scan from the left; where the pattern matches,
  emit the replacement and go on after the match; elsewhere copy one character. After an
  empty match the loop copies the next character before it searches again.
\<close>

function sub_all :: "pattern \<Rightarrow> document \<Rightarrow> document \<Rightarrow> document" where
  "sub_all p repl [] = (case match_here p [] of Some r \<Rightarrow> repl | None \<Rightarrow> [])"
| "sub_all p repl (c # cs) =
     (case match_here p (c # cs) of
        Some r \<Rightarrow>
          (if length r < length (c # cs) then repl @ sub_all p repl r
           else repl @ c # sub_all p repl cs)
      | None \<Rightarrow> c # sub_all p repl cs)"
  by pat_completeness auto
termination
  by (relation "measure (\<lambda>(p, repl, s). length s)") auto

subsection \<open>Compiling a pattern\<close>

text \<open>
  The fragment of the pattern syntax the script uses. A backslash before \<^verbatim>\<open>s\<close> is the
  whitespace category and before \<^verbatim>\<open>n\<close> the line feed; before any other letter or a digit
  the escape is outside the fragment; before any other character it makes that character
  a literal. A backslash at the end of the pattern and a repetition with nothing before
  it are the errors \<^verbatim>\<open>bad escape\<close> and \<^verbatim>\<open>nothing to repeat\<close> of \<^verbatim>\<open>re.compile\<close>.
  \<open>Unsupported\<close> is not an error of the library: it marks a pattern outside the fragment,
  about which the model says nothing.
\<close>

definition backslash :: nat where
  "backslash = 92"

definition is_alnum :: "nat \<Rightarrow> bool" where
  "is_alnum c \<longleftrightarrow> (48 \<le> c \<and> c \<le> 57) \<or> (65 \<le> c \<and> c \<le> 90) \<or> (97 \<le> c \<and> c \<le> 122)"

definition is_repeat_char :: "nat \<Rightarrow> bool" where
  "is_repeat_char c \<longleftrightarrow> c = 42 \<or> c = 43 \<or> c = 63"

definition is_special :: "nat \<Rightarrow> bool" where
  "is_special c \<longleftrightarrow> c \<in> set (str ''.[{()*+?^$|'')"

fun escape :: "nat \<Rightarrow> re_error + atom" where
  "escape e =
     (if e = 115 then Inr Category_space
      else if e = 110 then Inr (Char_lit 10)
      else if is_alnum e then Inl Unsupported
      else Inr (Char_lit e))"

text \<open>
  The repetition after an atom: \<^verbatim>\<open>+\<close> or \<^verbatim>\<open>*\<close>. A \<^verbatim>\<open>*\<close> after it is the error
  \<^verbatim>\<open>multiple repeat\<close>; the lazy and possessive marks \<^verbatim>\<open>?\<close> and \<^verbatim>\<open>+\<close> after it, the
  optional \<^verbatim>\<open>?\<close> and the counted \<^verbatim>\<open>{\<close> are outside the fragment.
\<close>

fun quantifier :: "atom \<Rightarrow> document \<Rightarrow> re_error + (item \<times> document)" where
  "quantifier a [] = Inr (Single a, [])"
| "quantifier a (q # qs) =
     (if q = 43 \<or> q = 42
      then (case qs of
              [] \<Rightarrow> Inr (if q = 43 then Repeat1 a else Repeat0 a, [])
            | q' # _ \<Rightarrow>
                if q' = 42 then Inl Multiple_repeat
                else if q' = 43 \<or> q' = 63 then Inl Unsupported
                else Inr (if q = 43 then Repeat1 a else Repeat0 a, qs))
      else if q = 63 \<or> q = 123 then Inl Unsupported
      else Inr (Single a, q # qs))"

lemma quantifier_length:
  "quantifier a s = Inr (i, rest) \<Longrightarrow> length rest \<le> length s"
  by (cases s) (auto split: if_splits list.splits)

function re_compile :: "document \<Rightarrow> re_error + pattern" where
  "re_compile [] = Inr []"
| "re_compile (c # cs) =
     (if c = backslash
      then (case cs of
              [] \<Rightarrow> Inl Bad_escape
            | e # es \<Rightarrow>
                (case escape e of
                   Inl err \<Rightarrow> Inl err
                 | Inr a \<Rightarrow>
                     (case quantifier a es of
                        Inl err \<Rightarrow> Inl err
                      | Inr (i, rest) \<Rightarrow>
                          (case re_compile rest of
                             Inl err \<Rightarrow> Inl err
                           | Inr p \<Rightarrow> Inr (i # p)))))
      else if is_repeat_char c then Inl Nothing_to_repeat
      else if is_special c then Inl Unsupported
      else (case quantifier (Char_lit c) cs of
              Inl err \<Rightarrow> Inl err
            | Inr (i, rest) \<Rightarrow>
                (case re_compile rest of
                   Inl err \<Rightarrow> Inl err
                 | Inr p \<Rightarrow> Inr (i # p))))"
  by pat_completeness auto
termination
  by (relation "measure length") (auto dest: quantifier_length)

subsection \<open>The library calls\<close>

text \<open>
  A replacement string without a backslash stands for itself; the script's two
  replacements are such strings. Replacement templates with escapes or group references
  are outside the fragment.
\<close>

definition expand_template :: "document \<Rightarrow> re_error + document" where
  "expand_template repl = (if backslash \<in> set repl then Inl Unsupported else Inr repl)"

text \<open>
  \<^verbatim>\<open>re.sub(pattern, repl, string)\<close> compiles the pattern, prepares the replacement and runs
  the substitution loop. \<^verbatim>\<open>re.search(pattern, string)\<close> compiles the pattern and searches.
\<close>

definition re_sub :: "document \<Rightarrow> document \<Rightarrow> document \<Rightarrow> re_error + document" where
  "re_sub pattern repl string =
     (case re_compile pattern of
        Inl e \<Rightarrow> Inl e
      | Inr p \<Rightarrow>
          (case expand_template repl of
             Inl e \<Rightarrow> Inl e
           | Inr r \<Rightarrow> Inr (sub_all p r string)))"

definition re_search :: "document \<Rightarrow> document \<Rightarrow> re_error + document option" where
  "re_search pattern string =
     (case re_compile pattern of
        Inl e \<Rightarrow> Inl e
      | Inr p \<Rightarrow> Inr (first_match p string))"

section \<open>The script\<close>

text \<open>
  The pattern and replacement of lines 11 and 13 of the script, \<^verbatim>\<open>r'\s+parseTime,\n'\<close> and
  \<^verbatim>\<open>'\n'\<close>, and of line 15, \<^verbatim>\<open>r'\s+language:\s+resolvedLanguage,\n\s+\},'\<close> and a line feed,
  eight spaces and \<^verbatim>\<open>},\<close>. The patterns are raw strings: their backslashes reach the
  pattern compiler. The replacements are ordinary strings: \<^verbatim>\<open>\n\<close> is the line feed.
\<close>

definition parseTime_pattern :: document where
  "parseTime_pattern = backslash # str ''s+parseTime,'' @ backslash # str ''n''"

definition parseTime_repl :: document where
  "parseTime_repl = str ''\<newline>''"

definition language_pattern :: document where
  "language_pattern =
     backslash # str ''s+language:'' @ backslash # str ''s+resolvedLanguage,'' @
     backslash # str ''n'' @ backslash # str ''s+'' @ backslash # str ''},''"

definition language_repl :: document where
  "language_repl = str ''\<newline>        },''"

text \<open>The three assignments to \<^verbatim>\<open>content\<close>, each a rule of the rule set.\<close>

definition rule1 :: "document \<Rightarrow> re_error + document" where
  "rule1 content = re_sub parseTime_pattern parseTime_repl content"

definition rule2 :: "document \<Rightarrow> re_error + document" where
  "rule2 content = re_sub parseTime_pattern parseTime_repl content"

definition rule3 :: "document \<Rightarrow> re_error + document" where
  "rule3 content = re_sub language_pattern language_repl content"

text \<open>The three assignments in sequence: an error of one ends the run.\<close>

definition rule_set :: "document \<Rightarrow> re_error + document" where
  "rule_set content =
     (case rule1 content of
        Inl e \<Rightarrow> Inl e
      | Inr c1 \<Rightarrow>
          (case rule2 c1 of
             Inl e \<Rightarrow> Inl e
           | Inr c2 \<Rightarrow> rule3 c2))"

section \<open>Notions used to state the properties\<close>

text \<open>
  A non-empty run of whitespace; the least number of characters a pattern consumes; the
  pattern of a literal text; and the two compiled patterns of the script.
\<close>

definition spaces :: "document \<Rightarrow> bool" where
  "spaces ws \<longleftrightarrow> ws \<noteq> [] \<and> (\<forall>c \<in> set ws. is_space c)"

fun min_len :: "pattern \<Rightarrow> nat" where
  "min_len [] = 0"
| "min_len (Repeat0 a # p) = min_len p"
| "min_len (i # p) = Suc (min_len p)"

definition lits :: "document \<Rightarrow> pattern" where
  "lits l = map (\<lambda>c. Single (Char_lit c)) l"

definition parseTime_compiled :: pattern where
  "parseTime_compiled = Repeat1 Category_space # lits (str ''parseTime,\<newline>'')"

definition language_compiled :: pattern where
  "language_compiled =
     Repeat1 Category_space # lits (str ''language:'') @
     Repeat1 Category_space # lits (str ''resolvedLanguage,\<newline>'') @
     Repeat1 Category_space # lits (str ''},'')"

text \<open>
  The token of the first pattern, and the part of the third pattern that names the entry:
  \<^verbatim>\<open>language:\<close>, whitespace and \<^verbatim>\<open>resolvedLanguage,\<close>, as a pattern of its own.
\<close>

definition token :: document where
  "token = str ''parseTime,''"

definition language_entry_pattern :: document where
  "language_entry_pattern = str ''language:'' @ backslash # str ''s+resolvedLanguage,''"

definition language_entry_compiled :: pattern where
  "language_entry_compiled =
     lits (str ''language:'') @ Repeat1 Category_space # lits (str ''resolvedLanguage,'')"



section \<open>The compiled rules\<close>

lemmas char_defs = str_def backslash_def is_special_def is_repeat_char_def is_alnum_def

lemma compile_parseTime: "re_compile parseTime_pattern = Inr parseTime_compiled"
  by (simp add: parseTime_pattern_def parseTime_compiled_def lits_def char_defs)

lemma compile_language: "re_compile language_pattern = Inr language_compiled"
  by (simp add: language_pattern_def language_compiled_def lits_def char_defs)

lemma template_parseTime: "expand_template parseTime_repl = Inr parseTime_repl"
  by (simp add: expand_template_def parseTime_repl_def char_defs)

lemma template_language: "expand_template language_repl = Inr language_repl"
  by (simp add: expand_template_def language_repl_def char_defs)

lemma rule1_eq: "rule1 D = Inr (sub_all parseTime_compiled parseTime_repl D)"
  by (simp add: rule1_def re_sub_def compile_parseTime template_parseTime)

lemma rule2_eq: "rule2 D = Inr (sub_all parseTime_compiled parseTime_repl D)"
  by (simp add: rule2_def re_sub_def compile_parseTime template_parseTime)

lemma rule3_eq: "rule3 D = Inr (sub_all language_compiled language_repl D)"
  by (simp add: rule3_def re_sub_def compile_language template_language)

lemma rule_set_eq:
  "rule_set D =
     Inr (sub_all language_compiled language_repl
            (sub_all parseTime_compiled parseTime_repl
               (sub_all parseTime_compiled parseTime_repl D)))"
  by (simp add: rule_set_def rule1_eq rule2_eq rule3_eq)

lemma search_parseTime:
  "re_search parseTime_pattern D = Inr (first_match parseTime_compiled D)"
  by (simp add: re_search_def compile_parseTime)

lemma search_language:
  "re_search language_pattern D = Inr (first_match language_compiled D)"
  by (simp add: re_search_def compile_language)

section \<open>What a match consumes\<close>

lemma match_here_suffix:
  "match_here p s = Some r \<Longrightarrow> \<exists>m. s = m @ r \<and> min_len p \<le> length m"
proof (induction p s arbitrary: r rule: match_here.induct)
  case (1 s)
  then show ?case by simp
next
  case (2 a p)
  then show ?case by simp
next
  case (3 a p c cs)
  then obtain m where "cs = m @ r" "min_len p \<le> length m"
    by (auto split: if_splits)
  then have "c # cs = (c # m) @ r \<and> min_len (Single a # p) \<le> length (c # m)" by simp
  then show ?case by blast
next
  case (4 a p)
  then show ?case by simp
next
  case (5 a p c cs)
  then obtain m where "cs = m @ r" "min_len p \<le> length m"
    by (auto split: if_splits)
  then have "c # cs = (c # m) @ r \<and> min_len (Repeat1 a # p) \<le> length (c # m)" by simp
  then show ?case by blast
next
  case (6 a p)
  then show ?case by simp
next
  case (7 a p c cs)
  show ?case
  proof (cases "accepts a c \<and> match_here (Repeat0 a # p) cs \<noteq> None")
    case True
    with 7 obtain m where "cs = m @ r" "min_len p \<le> length m"
      by (auto split: if_splits option.splits)
    then have "c # cs = (c # m) @ r \<and> min_len (Repeat0 a # p) \<le> length (c # m)" by simp
    then show ?thesis by blast
  next
    case False
    with 7 show ?thesis by (auto split: if_splits option.splits)
  qed
qed

lemma match_here_length:
  "match_here p s = Some r \<Longrightarrow> length r + min_len p \<le> length s"
  using match_here_suffix [of p s r] by auto

lemma sub_all_length:
  "length repl \<le> min_len p \<Longrightarrow> length (sub_all p repl s) \<le> length s"
proof (induction p repl s rule: sub_all.induct)
  case (1 p repl)
  then show ?case
    using match_here_length [of p "[]"] by (auto split: option.splits)
next
  case (2 p repl c cs)
  show ?case
  proof (cases "match_here p (c # cs)")
    case None
    with 2 show ?thesis by simp
  next
    case (Some r)
    from match_here_length [OF Some] have len: "length r + min_len p \<le> length (c # cs)" .
    show ?thesis
    proof (cases "length r < length (c # cs)")
      case True
      with 2 Some have "length (sub_all p repl r) \<le> length r" by simp
      with Some True len 2(4) show ?thesis by simp
    next
      case False
      with len have "min_len p = 0" by simp
      with 2 Some False show ?thesis by simp
    qed
  qed
qed

lemma sub_all_no_match:
  "first_match p s = None \<Longrightarrow> sub_all p repl s = s"
  by (induction s) (auto split: option.splits)

lemma min_len_parseTime: "min_len parseTime_compiled = 12"
  by (simp add: parseTime_compiled_def lits_def str_def)

lemma min_len_language: "min_len language_compiled = 32"
  by (simp add: language_compiled_def lits_def str_def)

lemma length_repls: "length parseTime_repl = 1" "length language_repl = 11"
  by (simp_all add: parseTime_repl_def language_repl_def str_def)

section \<open>The matches of the two patterns\<close>

lemma match_lits:
  "match_here (lits l @ p) s = Some r \<longleftrightarrow> (\<exists>t. s = l @ t \<and> match_here p t = Some r)"
proof (induction l arbitrary: s)
  case Nil
  then show ?case by (simp add: lits_def)
next
  case (Cons a l)
  then show ?case by (cases s) (auto simp add: lits_def)
qed

lemma match_space_star:
  "\<not> is_space x \<Longrightarrow>
   match_here (Repeat0 Category_space # Single (Char_lit x) # p) s =
   match_here (Single (Char_lit x) # p) (dropWhile is_space s)"
  by (induction s) (auto split: option.splits)

lemma match_space_plus:
  assumes "\<not> is_space x"
  shows "match_here (Repeat1 Category_space # Single (Char_lit x) # p) s = Some r \<longleftrightarrow>
    (\<exists>ws t. spaces ws \<and> s = ws @ t \<and> match_here (Single (Char_lit x) # p) t = Some r)"
proof
  assume m: "match_here (Repeat1 Category_space # Single (Char_lit x) # p) s = Some r"
  then obtain c cs where s: "s = c # cs" by (cases s) auto
  with m have c: "is_space c"
    and r: "match_here (Single (Char_lit x) # p) (dropWhile is_space cs) = Some r"
    by (auto simp add: match_space_star [OF assms] split: if_splits)
  have "spaces (c # takeWhile is_space cs)"
    using c by (auto simp add: spaces_def dest: set_takeWhileD)
  moreover have "s = (c # takeWhile is_space cs) @ dropWhile is_space cs"
    by (simp add: s)
  ultimately show "\<exists>ws t. spaces ws \<and> s = ws @ t \<and>
      match_here (Single (Char_lit x) # p) t = Some r"
    using r by blast
next
  assume "\<exists>ws t. spaces ws \<and> s = ws @ t \<and> match_here (Single (Char_lit x) # p) t = Some r"
  then obtain ws t where ws: "spaces ws" and s: "s = ws @ t"
    and r: "match_here (Single (Char_lit x) # p) t = Some r"
    by blast
  from r obtain t' where t: "t = x # t'" by (cases t) (auto split: if_splits)
  from ws obtain w ws' where w: "ws = w # ws'" "is_space w" "\<forall>c \<in> set ws'. is_space c"
    by (cases ws) (auto simp add: spaces_def)
  have "dropWhile is_space (ws' @ x # t') = x # t'"
    using w(3) assms by (simp add: dropWhile_append3)
  then show "match_here (Repeat1 Category_space # Single (Char_lit x) # p) s = Some r"
    using r by (simp add: s w t match_space_star [OF assms])
qed

lemma match_space_plus_lits:
  assumes "\<not> is_space x"
  shows "match_here (Repeat1 Category_space # lits (x # l) @ p) s = Some r \<longleftrightarrow>
    (\<exists>ws t. spaces ws \<and> s = ws @ (x # l) @ t \<and> match_here p t = Some r)"
proof -
  have "lits (x # l) @ p = Single (Char_lit x) # lits l @ p" by (simp add: lits_def)
  moreover have "match_here (Single (Char_lit x) # lits l @ p) u = Some r \<longleftrightarrow>
      (\<exists>t. u = (x # l) @ t \<and> match_here p t = Some r)" for u
    using match_lits [of "x # l" p u r] by (simp add: lits_def)
  ultimately show ?thesis
    using match_space_plus [OF assms, of "lits l @ p" s r] by auto
qed

lemma match_parseTime:
  "match_here parseTime_compiled s = Some r \<longleftrightarrow>
     (\<exists>ws. spaces ws \<and> s = ws @ str ''parseTime,\<newline>'' @ r)"
proof -
  have "\<not> is_space 112" by (simp add: is_space_def)
  from match_space_plus_lits [OF this, of "str ''arseTime,\<newline>''" "[]" s r]
  show ?thesis by (simp add: parseTime_compiled_def str_def)
qed

lemma match_language:
  "match_here language_compiled s = Some r \<longleftrightarrow>
     (\<exists>ws1 ws2 ws3. spaces ws1 \<and> spaces ws2 \<and> spaces ws3 \<and>
        s = ws1 @ str ''language:'' @ ws2 @ str ''resolvedLanguage,\<newline>'' @ ws3 @
            str ''},'' @ r)"
proof -
  have a: "\<not> is_space 108" and b: "\<not> is_space 114" and c: "\<not> is_space 125"
    by (simp_all add: is_space_def)
  have three: "match_here (Repeat1 Category_space # lits (str ''},'')) u = Some r \<longleftrightarrow>
      (\<exists>ws3. spaces ws3 \<and> u = ws3 @ str ''},'' @ r)" for u
    using match_space_plus_lits [OF c, of "str '',''" "[]" u r] by (simp add: str_def)
  have two: "match_here (Repeat1 Category_space # lits (str ''resolvedLanguage,\<newline>'') @
        Repeat1 Category_space # lits (str ''},'')) u = Some r \<longleftrightarrow>
      (\<exists>ws2 ws3. spaces ws2 \<and> spaces ws3 \<and>
         u = ws2 @ str ''resolvedLanguage,\<newline>'' @ ws3 @ str ''},'' @ r)" for u
    using match_space_plus_lits [OF b, of "str ''esolvedLanguage,\<newline>''"
        "Repeat1 Category_space # lits (str ''},'')" u r]
    by (simp add: three) (auto simp add: str_def)
  show ?thesis
    unfolding language_compiled_def
    using match_space_plus_lits [OF a, of "str ''anguage:''"
        "Repeat1 Category_space # lits (str ''resolvedLanguage,\<newline>'') @
         Repeat1 Category_space # lits (str ''},'')" s r]
    by (simp add: two) (auto simp add: str_def)
qed

lemma sub_all_hit:
  "match_here p s = Some r \<Longrightarrow> length r < length s \<Longrightarrow>
   sub_all p repl s = repl @ sub_all p repl r"
  by (cases s) auto

lemma sub_all_prefix:
  "(\<And>u. u \<noteq> [] \<Longrightarrow> suffix u pre \<Longrightarrow> match_here p (u @ rest) = None) \<Longrightarrow>
   sub_all p repl (pre @ rest) = pre @ sub_all p repl rest"
proof (induction pre)
  case Nil
  then show ?case by simp
next
  case (Cons a pre)
  have "match_here p ((a # pre) @ rest) = None"
    by (rule Cons.prems) simp_all
  moreover have "sub_all p repl (pre @ rest) = pre @ sub_all p repl rest"
    by (rule Cons.IH) (simp add: Cons.prems suffix_Cons)
  ultimately show ?case by simp
qed

section \<open>Where a match can start\<close>

lemma first_match_None_iff:
  "first_match p s = None \<longleftrightarrow> (\<forall>u. suffix u s \<longrightarrow> match_here p u = None)"
proof (induction s)
  case Nil
  then show ?case by simp
next
  case (Cons a s)
  then show ?case by (auto simp add: suffix_Cons split: option.splits)
qed


lemma parseTime_lit: "str ''parseTime,\<newline>'' = token @ [10]"
  by (simp add: token_def str_def)

lemma match_parseTime_sublist:
  assumes "match_here parseTime_compiled u = Some r"
  shows "sublist token u"
proof -
  from assms obtain ws where "u = ws @ token @ [10] @ r"
    by (auto simp add: match_parseTime parseTime_lit)
  then show ?thesis unfolding sublist_def by blast
qed

lemma no_token_no_match:
  assumes "\<not> sublist token s"
  shows "first_match parseTime_compiled s = None"
proof -
  have "match_here parseTime_compiled u = None" if "suffix u s" for u
  proof (rule ccontr)
    assume "match_here parseTime_compiled u \<noteq> None"
    then obtain r where "match_here parseTime_compiled u = Some r" by auto
    then have "sublist token u" by (rule match_parseTime_sublist)
    with that have "sublist token s"
      by (meson sublist_order.order_trans suffix_imp_sublist)
    with assms show False by simp
  qed
  then show ?thesis by (simp add: first_match_None_iff)
qed

lemma compile_language_entry:
  "re_compile language_entry_pattern = Inr language_entry_compiled"
  by (simp add: language_entry_pattern_def language_entry_compiled_def lits_def char_defs)

lemma search_language_entry:
  "re_search language_entry_pattern D = Inr (first_match language_entry_compiled D)"
  by (simp add: re_search_def compile_language_entry)

lemma match_language_entry:
  assumes "spaces ws"
  shows "match_here language_entry_compiled
     (str ''language:'' @ ws @ str ''resolvedLanguage,'' @ t) = Some t"
proof -
  have r: "\<not> is_space 114" by (simp add: is_space_def)
  have "match_here (Repeat1 Category_space # lits (str ''resolvedLanguage,''))
      (ws @ str ''resolvedLanguage,'' @ t) = Some t"
    using match_space_plus_lits [OF r, of "str ''esolvedLanguage,''" "[]"
        "ws @ str ''resolvedLanguage,'' @ t" t] assms
    by (auto simp add: str_def)
  then show ?thesis
    by (simp add: language_entry_compiled_def match_lits)
qed

lemma no_entry_no_match:
  assumes "first_match language_entry_compiled s = None"
  shows "first_match language_compiled s = None"
proof -
  have "match_here language_compiled u = None" if u: "suffix u s" for u
  proof (rule ccontr)
    assume "match_here language_compiled u \<noteq> None"
    then obtain r ws1 ws2 ws3 where ws: "spaces ws2"
      and eq: "u = ws1 @ str ''language:'' @ ws2 @ str ''resolvedLanguage,\<newline>'' @ ws3 @
            str ''},'' @ r"
      by (auto simp add: match_language)
    let ?t = "10 # ws3 @ str ''},'' @ r"
    let ?v = "str ''language:'' @ ws2 @ str ''resolvedLanguage,'' @ ?t"
    have "u = ws1 @ ?v" by (simp add: eq str_def)
    then have "suffix ?v u" by (simp add: suffix_def)
    with u have "suffix ?v s" by (meson suffix_order.order_trans)
    with assms have "match_here language_entry_compiled ?v = None"
      by (simp add: first_match_None_iff)
    with match_language_entry [OF ws, of ?t] show False by simp
  qed
  then show ?thesis by (simp add: first_match_None_iff)
qed

lemmas eval_defs = parseTime_compiled_def language_compiled_def lits_def str_def is_space_def
  parseTime_repl_def language_repl_def

lemma scenario_run:
  "rule_set (str ''return {\<newline>        result,\<newline>        parseTime,\<newline>        language: resolvedLanguage,\<newline>    };\<newline>'')
   = Inr (str ''return {\<newline>        result,\<newline>        language: resolvedLanguage,\<newline>    };\<newline>'')"
  by (simp add: rule_set_eq eval_defs)

section \<open>The first rule on its own output\<close>








lemma sub_parseTime_hit:
  assumes "match_here parseTime_compiled s = Some r"
  shows "sub_all parseTime_compiled parseTime_repl s
    = 10 # sub_all parseTime_compiled parseTime_repl r"
proof -
  from match_here_length [OF assms] have "length r < length s"
    by (simp add: min_len_parseTime)
  from sub_all_hit [OF assms this] show ?thesis
    by (simp add: parseTime_repl_def str_def)
qed








section \<open>The leftmost match\<close>

lemma spaces_filter: "spaces w \<Longrightarrow> filter (\<lambda>c. \<not> is_space c) w = []"
  by (simp add: spaces_def)

lemma same_end_parseTime:
  assumes "match_here parseTime_compiled (x @ rest) = Some r"
    and "match_here parseTime_compiled rest = Some r"
  shows "\<forall>c \<in> set x. is_space c"
proof -
  from assms obtain w' w where w': "spaces w'" and w: "spaces w"
    and l: "x @ rest = w' @ str ''parseTime,\<newline>'' @ r"
    and r: "rest = w @ str ''parseTime,\<newline>'' @ r"
    by (auto simp add: match_parseTime)
  from l r have "(x @ w) @ (str ''parseTime,\<newline>'' @ r) = w' @ (str ''parseTime,\<newline>'' @ r)"
    by simp
  then have "x @ w = w'" by (simp only: append_same_eq)
  with w' show ?thesis by (auto simp add: spaces_def)
qed

lemma same_end_language:
  assumes "match_here language_compiled (x @ rest) = Some r"
    and "match_here language_compiled rest = Some r"
  shows "\<forall>c \<in> set x. is_space c"
proof -
  let ?f = "filter (\<lambda>c. \<not> is_space c)"
  have skel: "?f (w1 @ str ''language:'' @ w2 @ str ''resolvedLanguage,\<newline>'' @ w3 @ str ''},'')
      = str ''language:resolvedLanguage,},''"
    if "spaces w1" "spaces w2" "spaces w3" for w1 w2 w3
    using that by (simp add: spaces_filter) (simp add: str_def is_space_def)
  from assms(1) obtain a1 a2 a3
    where a: "spaces a1" "spaces a2" "spaces a3"
      and l: "x @ rest = a1 @ str ''language:'' @ a2 @ str ''resolvedLanguage,\<newline>'' @ a3 @
            str ''},'' @ r"
    unfolding match_language by blast
  from assms(2) obtain b1 b2 b3
    where b: "spaces b1" "spaces b2" "spaces b3"
      and r: "rest = b1 @ str ''language:'' @ b2 @ str ''resolvedLanguage,\<newline>'' @ b3 @
            str ''},'' @ r"
    unfolding match_language by blast
  define A where "A = a1 @ str ''language:'' @ a2 @ str ''resolvedLanguage,\<newline>'' @ a3 @ str ''},''"
  define B where "B = b1 @ str ''language:'' @ b2 @ str ''resolvedLanguage,\<newline>'' @ b3 @ str ''},''"
  have fA: "?f A = str ''language:resolvedLanguage,},''" unfolding A_def by (rule skel [OF a])
  have fB: "?f B = str ''language:resolvedLanguage,},''" unfolding B_def by (rule skel [OF b])
  from l have "x @ rest = A @ r" by (simp add: A_def)
  moreover from r have "rest = B @ r" by (simp add: B_def)
  ultimately have "(x @ B) @ r = A @ r" by simp
  then have "x @ B = A" by (simp only: append_same_eq)
  then have "?f (x @ B) = ?f A" by (rule arg_cong)
  then have "?f x @ str ''language:resolvedLanguage,},'' = str ''language:resolvedLanguage,},''"
    by (simp only: filter_append fA fB)
  then have "?f x = []" by simp
  then show ?thesis by (simp add: filter_empty_conv)
qed

lemma leftmost_match_start:
  assumes same: "\<And>x r. match_here p (x @ rest) = Some r \<Longrightarrow> match_here p rest = Some r \<Longrightarrow>
      \<forall>c \<in> set x. is_space c"
    and hit: "match_here p rest = Some post"
  shows "first_match p (pre @ rest) = Some post \<Longrightarrow> pre = [] \<or> \<not> is_space (last pre) \<Longrightarrow>
    u \<noteq> [] \<Longrightarrow> suffix u pre \<Longrightarrow> match_here p (u @ rest) = None"
proof (induction pre)
  case Nil
  then show ?case by simp
next
  case (Cons a pre)
  have head: "match_here p ((a # pre) @ rest) = None"
  proof (rule ccontr)
    assume "match_here p ((a # pre) @ rest) \<noteq> None"
    then obtain r where r: "match_here p ((a # pre) @ rest) = Some r" by auto
    with Cons.prems(1) have "r = post" by simp
    with r hit same [of "a # pre" post] have "\<forall>c \<in> set (a # pre). is_space c" by simp
    then have "is_space (last (a # pre))" using last_in_set [of "a # pre"] by blast
    with Cons.prems(2) show False by simp
  qed
  with Cons.prems(1) have first: "first_match p (pre @ rest) = Some post" by simp
  from Cons.prems(2) have pre: "pre = [] \<or> \<not> is_space (last pre)" by (cases pre) auto
  from Cons.prems(4) consider "u = a # pre" | "suffix u pre" by (auto simp add: suffix_Cons)
  then show ?case
  proof cases
    case 1
    with head show ?thesis by simp
  next
    case 2
    from Cons.IH [OF first pre Cons.prems(3) 2] show ?thesis .
  qed
qed

lemma remove_leftmost_line:
  assumes ws: "spaces ws"
    and pre: "pre = [] \<or> \<not> is_space (last pre)"
    and first: "first_match parseTime_compiled (pre @ ws @ str ''parseTime,\<newline>'' @ post)
      = Some post"
  shows "sub_all parseTime_compiled parseTime_repl (pre @ ws @ str ''parseTime,\<newline>'' @ post)
    = pre @ [10] @ sub_all parseTime_compiled parseTime_repl post"
proof -
  let ?rest = "ws @ str ''parseTime,\<newline>'' @ post"
  have hit: "match_here parseTime_compiled ?rest = Some post"
    using ws by (auto simp add: match_parseTime)
  have "sub_all parseTime_compiled parseTime_repl (pre @ ?rest)
      = pre @ sub_all parseTime_compiled parseTime_repl ?rest"
    by (rule sub_all_prefix)
      (rule leftmost_match_start [OF same_end_parseTime hit first pre])
  also have "sub_all parseTime_compiled parseTime_repl ?rest
      = 10 # sub_all parseTime_compiled parseTime_repl post"
    by (rule sub_parseTime_hit [OF hit])
  finally show ?thesis by simp
qed

lemma replace_leftmost_entry:
  assumes ws: "spaces ws1" "spaces ws2" "spaces ws3"
    and pre: "pre = [] \<or> \<not> is_space (last pre)"
    and first: "first_match language_compiled
      (pre @ ws1 @ str ''language:'' @ ws2 @ str ''resolvedLanguage,\<newline>'' @ ws3 @
       str ''},'' @ post) = Some post"
  shows "sub_all language_compiled language_repl
      (pre @ ws1 @ str ''language:'' @ ws2 @ str ''resolvedLanguage,\<newline>'' @ ws3 @
       str ''},'' @ post)
    = pre @ language_repl @ sub_all language_compiled language_repl post"
proof -
  let ?rest = "ws1 @ str ''language:'' @ ws2 @ str ''resolvedLanguage,\<newline>'' @ ws3 @
       str ''},'' @ post"
  have hit: "match_here language_compiled ?rest = Some post"
    using ws by (auto simp add: match_language)
  have "sub_all language_compiled language_repl (pre @ ?rest)
      = pre @ sub_all language_compiled language_repl ?rest"
    by (rule sub_all_prefix)
      (rule leftmost_match_start [OF same_end_language hit first pre])
  also have "sub_all language_compiled language_repl ?rest
      = language_repl @ sub_all language_compiled language_repl post"
    by (rule sub_all_hit [OF hit]) (simp add: str_def)
  finally show ?thesis by simp
qed


section \<open>Properties of the rules\<close>

text \<open>
  C10. No rule makes the document longer, and neither does the whole rule set: every rule
  returns a document, and that document is at most as long as its input. A match of the
  first pattern has at least 12 characters and its replacement has one; a match of the
  third has at least 32 and its replacement has 11.
\<close>

theorem rules_never_lengthen:
  "\<exists>D1 D2 D3 R.
     rule1 D = Inr D1 \<and> length D1 \<le> length D \<and>
     rule2 D = Inr D2 \<and> length D2 \<le> length D \<and>
     rule3 D = Inr D3 \<and> length D3 \<le> length D \<and>
     rule_set D = Inr R \<and> length R \<le> length D"
proof -
  have one: "length (sub_all parseTime_compiled parseTime_repl s) \<le> length s" for s
    by (rule sub_all_length) (simp add: min_len_parseTime length_repls)
  have three: "length (sub_all language_compiled language_repl s) \<le> length s" for s
    by (rule sub_all_length) (simp add: min_len_language length_repls)
  have "length (sub_all language_compiled language_repl
          (sub_all parseTime_compiled parseTime_repl
             (sub_all parseTime_compiled parseTime_repl D))) \<le> length D"
    using one [of D] one [of "sub_all parseTime_compiled parseTime_repl D"]
      three [of "sub_all parseTime_compiled parseTime_repl
                   (sub_all parseTime_compiled parseTime_repl D)"]
    by linarith
  then show ?thesis
    using one [of D] three [of D] by (simp add: rule1_eq rule2_eq rule3_eq rule_set_eq)
qed

text \<open>
  C7. A rule whose pattern matches nowhere in the document returns the document as it
  is, and returns it as a result, not as an error. This holds for each of the three
  rules; the search is \<^verbatim>\<open>re.search\<close> with the rule's own pattern.
\<close>

theorem no_match_rule_is_identity:
  "(re_search parseTime_pattern D = Inr None \<longrightarrow> rule1 D = Inr D) \<and>
   (re_search parseTime_pattern D = Inr None \<longrightarrow> rule2 D = Inr D) \<and>
   (re_search language_pattern D = Inr None \<longrightarrow> rule3 D = Inr D)"
  by (simp add: search_parseTime search_language rule1_eq rule2_eq rule3_eq sub_all_no_match)

theorem no_match_rule_is_identity_witness:
  "re_search parseTime_pattern (str ''  result,\<newline>  },'') = Inr None \<and>
   re_search language_pattern (str ''  result,\<newline>  },'') = Inr None \<and>
   rule1 (str ''  result,\<newline>  },'') = Inr (str ''  result,\<newline>  },'') \<and>
   rule2 (str ''  result,\<newline>  },'') = Inr (str ''  result,\<newline>  },'') \<and>
   rule3 (str ''  result,\<newline>  },'') = Inr (str ''  result,\<newline>  },'')"
proof -
  have h1: "re_search parseTime_pattern (str ''  result,\<newline>  },'') = Inr None"
    by (simp add: search_parseTime eval_defs)
  have h3: "re_search language_pattern (str ''  result,\<newline>  },'') = Inr None"
    by (simp add: search_language eval_defs)
  from h1 h3 no_match_rule_is_identity [of "str ''  result,\<newline>  },''"]
  show ?thesis by blast
qed

text \<open>
  C6. If the rule set turns a document into a result in which neither the first (and
  second) pattern nor the third pattern matches anywhere, then running the rule set again
  on that result returns it unchanged.
\<close>

theorem second_run_unchanged:
  assumes "rule_set D = Inr R"
    and "re_search parseTime_pattern R = Inr None"
    and "re_search language_pattern R = Inr None"
  shows "rule_set R = Inr R"
  using assms(2,3)
  by (simp add: search_parseTime search_language rule_set_eq sub_all_no_match)

theorem second_run_unchanged_witness:
  "rule_set (str ''a,\<newline>  parseTime,\<newline>  language: resolvedLanguage,\<newline>  },'')
     = Inr (str ''a,\<newline>        },'') \<and>
   re_search parseTime_pattern (str ''a,\<newline>        },'') = Inr None \<and>
   re_search language_pattern (str ''a,\<newline>        },'') = Inr None \<and>
   rule_set (str ''a,\<newline>        },'') = Inr (str ''a,\<newline>        },'')"
proof -
  have run: "rule_set (str ''a,\<newline>  parseTime,\<newline>  language: resolvedLanguage,\<newline>  },'')
     = Inr (str ''a,\<newline>        },'')"
    by (simp add: rule_set_eq eval_defs)
  have h1: "re_search parseTime_pattern (str ''a,\<newline>        },'') = Inr None"
    by (simp add: search_parseTime eval_defs)
  have h3: "re_search language_pattern (str ''a,\<newline>        },'') = Inr None"
    by (simp add: search_language eval_defs)
  from run h1 h3 second_run_unchanged [OF run h1 h3] show ?thesis by blast
qed

text \<open>
  C1. The scenario of the specification closes its object with \<^verbatim>\<open>};\<close>, and the third
  pattern asks for \<^verbatim>\<open>},\<close>: the third rule matches nowhere. The rule set removes the
  \<^verbatim>\<open>parseTime,\<close> line, keeps the indentation of the other lines and keeps the
  \<^verbatim>\<open>language: resolvedLanguage,\<close> line.
\<close>

theorem scenario_keeps_language_line:
  "rule_set (str ''return {\<newline>        result,\<newline>        parseTime,\<newline>        language: resolvedLanguage,\<newline>    };\<newline>'')
   = Inr (str ''return {\<newline>        result,\<newline>        language: resolvedLanguage,\<newline>    };\<newline>'')"
  by (rule scenario_run)

text \<open>The output the specification expects for the scenario is not the output.\<close>

theorem scenario_expected_output_fails:
  "rule_set (str ''return {\<newline>        result,\<newline>        parseTime,\<newline>        language: resolvedLanguage,\<newline>    };\<newline>'')
   \<noteq> Inr (str ''return {\<newline>        result,\<newline>    };\<newline>'')"
  unfolding scenario_run by (simp add: str_def)

text \<open>
  C5. A document that contains no \<^verbatim>\<open>parseTime,\<close> and no \<^verbatim>\<open>language:\<close> followed by one or
  more whitespace characters and \<^verbatim>\<open>resolvedLanguage,\<close> comes out of the rule set
  unchanged.
\<close>

theorem untouched_without_targets:
  assumes "\<not> sublist (str ''parseTime,'') D"
    and "re_search language_entry_pattern D = Inr None"
  shows "rule_set D = Inr D"
proof -
  from assms(1) have one: "first_match parseTime_compiled D = None"
    by (simp add: no_token_no_match token_def)
  from assms(2) have "first_match language_entry_compiled D = None"
    by (simp add: search_language_entry)
  then have three: "first_match language_compiled D = None"
    by (rule no_entry_no_match)
  show ?thesis
    by (simp add: rule_set_eq sub_all_no_match one three)
qed

theorem untouched_without_targets_witness:
  "\<not> sublist (str ''parseTime,'') (str ''return {\<newline>    result,\<newline>};\<newline>'') \<and>
   re_search language_entry_pattern (str ''return {\<newline>    result,\<newline>};\<newline>'') = Inr None \<and>
   rule_set (str ''return {\<newline>    result,\<newline>};\<newline>'')
     = Inr (str ''return {\<newline>    result,\<newline>};\<newline>'')"
proof -
  have h1: "\<not> sublist (str ''parseTime,'') (str ''return {\<newline>    result,\<newline>};\<newline>'')"
    by (simp add: str_def sublist_Cons_right)
  have h2: "re_search language_entry_pattern (str ''return {\<newline>    result,\<newline>};\<newline>'') = Inr None"
    by (simp add: search_language_entry language_entry_compiled_def eval_defs)
  from untouched_without_targets [OF h1 h2] h1 h2 show ?thesis by blast
qed

text \<open>
  The absence of the substring with one space, \<^verbatim>\<open>language: resolvedLanguage,\<close>, is not
  enough: the third pattern allows any run of whitespace after the colon.
\<close>

theorem wider_gap_still_matches:
  "\<not> sublist (str ''parseTime,'') (str ''  language:  resolvedLanguage,\<newline>  },'') \<and>
   \<not> sublist (str ''language: resolvedLanguage,'')
       (str ''  language:  resolvedLanguage,\<newline>  },'') \<and>
   rule_set (str ''  language:  resolvedLanguage,\<newline>  },'') = Inr (str ''\<newline>        },'') \<and>
   rule_set (str ''  language:  resolvedLanguage,\<newline>  },'')
     \<noteq> Inr (str ''  language:  resolvedLanguage,\<newline>  },'')"
  by (simp add: rule_set_eq eval_defs sublist_Cons_right)




text \<open>
  C2. Let the document be \<open>pre\<close>, then a block made of a non-empty run of whitespace,
  \<^verbatim>\<open>language:\<close>, a non-empty run of whitespace, \<^verbatim>\<open>resolvedLanguage,\<close> with its line feed,
  a non-empty run of whitespace and \<^verbatim>\<open>},\<close>, then \<open>post\<close>. If \<open>pre\<close> is empty or ends in
  a character that is not whitespace, and the block is the leftmost match of the third
  pattern (the search ends where \<open>post\<close> begins; no match starts in \<open>pre\<close>), then the
  third rule keeps \<open>pre\<close>, replaces the block by a line feed, eight spaces and \<^verbatim>\<open>},\<close>,
  and goes on with \<open>post\<close>. The eight spaces are fixed: the indentation the brace had
  is not kept. The text \<open>pre\<close> may contain \<^verbatim>\<open>language:\<close> elsewhere.
\<close>

theorem rule3_fixed_indentation:
  assumes "spaces ws1" "spaces ws2" "spaces ws3"
    and "pre = [] \<or> \<not> is_space (last pre)"
    and "re_search language_pattern
      (pre @ ws1 @ str ''language:'' @ ws2 @ str ''resolvedLanguage,\<newline>'' @ ws3 @
       str ''},'' @ post) = Inr (Some post)"
  shows "\<exists>post'. rule3 post = Inr post' \<and>
    rule3 (pre @ ws1 @ str ''language:'' @ ws2 @ str ''resolvedLanguage,\<newline>'' @ ws3 @
           str ''},'' @ post)
      = Inr (pre @ str ''\<newline>        },'' @ post')"
proof -
  from assms(5) have "first_match language_compiled
      (pre @ ws1 @ str ''language:'' @ ws2 @ str ''resolvedLanguage,\<newline>'' @ ws3 @
       str ''},'' @ post) = Some post"
    by (simp add: search_language)
  from replace_leftmost_entry [OF assms(1-4) this] show ?thesis
    by (simp add: rule3_eq language_repl_def)
qed

theorem rule3_fixed_indentation_witness:
  "spaces (str ''\<newline>    '') \<and> spaces (str '' '') \<and> spaces (str ''  '') \<and>
   \<not> is_space (last (str ''  meta: {\<newline>    language: lang,'')) \<and>
   re_search language_pattern
     (str ''  meta: {\<newline>    language: lang,'' @ str ''\<newline>    '' @ str ''language:'' @ str '' '' @
      str ''resolvedLanguage,\<newline>'' @ str ''  '' @ str ''},'' @ str ''\<newline>'')
     = Inr (Some (str ''\<newline>'')) \<and>
   rule3 (str ''\<newline>'') = Inr (str ''\<newline>'') \<and>
   rule3 (str ''  meta: {\<newline>    language: lang,'' @ str ''\<newline>    '' @ str ''language:'' @
          str '' '' @ str ''resolvedLanguage,\<newline>'' @ str ''  '' @ str ''},'' @ str ''\<newline>'')
     = Inr (str ''  meta: {\<newline>    language: lang,'' @ str ''\<newline>        },'' @ str ''\<newline>'')"
proof -
  let ?pre = "str ''  meta: {\<newline>    language: lang,''"
  have h1: "spaces (str ''\<newline>    '')" and h2: "spaces (str '' '')" and h3: "spaces (str ''  '')"
    by (simp_all add: spaces_def str_def is_space_def)
  have h4: "\<not> is_space (last ?pre)"
    by (simp add: str_def is_space_def)
  then have h4': "?pre = [] \<or> \<not> is_space (last ?pre)" by simp
  have h5: "re_search language_pattern
     (?pre @ str ''\<newline>    '' @ str ''language:'' @ str '' '' @
      str ''resolvedLanguage,\<newline>'' @ str ''  '' @ str ''},'' @ str ''\<newline>'')
     = Inr (Some (str ''\<newline>''))"
    by (simp add: search_language eval_defs)
  have h6: "rule3 (str ''\<newline>'') = Inr (str ''\<newline>'')"
    by (simp add: rule3_eq eval_defs)
  from rule3_fixed_indentation [OF h1 h2 h3 h4' h5] h1 h2 h3 h4 h5 h6
  show ?thesis by auto
qed

text \<open>
  On the block of the specification, indented by two spaces, the brace comes out indented
  by eight; and the line feed before the block belongs to the match.
\<close>

theorem rule3_two_space_block_fails:
  "rule3 (str ''  language: resolvedLanguage,\<newline>  },'') = Inr (str ''\<newline>        },'') \<and>
   rule3 (str ''  language: resolvedLanguage,\<newline>  },'') \<noteq> Inr (str ''\<newline>  },'') \<and>
   rule3 (str ''a,\<newline>  language: resolvedLanguage,\<newline>  },'') = Inr (str ''a,\<newline>        },'')"
  by (simp add: rule3_eq eval_defs)

text \<open>
  C3. Let the document be \<open>pre @ ws @ ''parseTime,\<newline>'' @ post\<close>, where \<open>ws\<close> is a
  non-empty run of whitespace (line feeds included) and \<open>pre\<close> is empty or ends in a
  character that is not whitespace. If this token line is the leftmost match of the first
  pattern (the search ends where \<open>post\<close> begins; no match starts in \<open>pre\<close>), then the
  first rule keeps \<open>pre\<close>, replaces the run and the token line by one line feed, and
  treats \<open>post\<close> in the same way: every further token line in \<open>post\<close> is removed too, and
  a \<open>post\<close> without a match stays as it is. The token may stand in \<open>pre\<close> and \<open>post\<close>
  where the pattern does not match.
\<close>

theorem rule1_removes_line:
  assumes "spaces ws"
    and "pre = [] \<or> \<not> is_space (last pre)"
    and "re_search parseTime_pattern (pre @ ws @ str ''parseTime,\<newline>'' @ post)
      = Inr (Some post)"
  shows "\<exists>post'. rule1 post = Inr post' \<and>
    rule1 (pre @ ws @ str ''parseTime,\<newline>'' @ post) = Inr (pre @ str ''\<newline>'' @ post') \<and>
    (re_search parseTime_pattern post = Inr None \<longrightarrow> post' = post)"
proof -
  from assms(3) have "first_match parseTime_compiled
      (pre @ ws @ str ''parseTime,\<newline>'' @ post) = Some post"
    by (simp add: search_parseTime)
  from remove_leftmost_line [OF assms(1,2) this] show ?thesis
    by (simp add: rule1_eq search_parseTime sub_all_no_match str_def)
qed

theorem rule1_removes_line_witness:
  "spaces (str ''\<newline>  '') \<and>
   \<not> is_space (last (str ''parseTime, t;\<newline>return {\<newline>  result,'')) \<and>
   re_search parseTime_pattern
     (str ''parseTime, t;\<newline>return {\<newline>  result,'' @ str ''\<newline>  '' @ str ''parseTime,\<newline>'' @
      str ''  meta: {\<newline>    parseTime,\<newline>  },\<newline>'')
     = Inr (Some (str ''  meta: {\<newline>    parseTime,\<newline>  },\<newline>'')) \<and>
   rule1 (str ''  meta: {\<newline>    parseTime,\<newline>  },\<newline>'') = Inr (str ''  meta: {\<newline>  },\<newline>'') \<and>
   rule1 (str ''parseTime, t;\<newline>return {\<newline>  result,'' @ str ''\<newline>  '' @ str ''parseTime,\<newline>'' @
          str ''  meta: {\<newline>    parseTime,\<newline>  },\<newline>'')
     = Inr (str ''parseTime, t;\<newline>return {\<newline>  result,'' @ str ''\<newline>'' @
            str ''  meta: {\<newline>  },\<newline>'')"
proof -
  let ?pre = "str ''parseTime, t;\<newline>return {\<newline>  result,''"
  let ?ws = "str ''\<newline>  ''"
  let ?post = "str ''  meta: {\<newline>    parseTime,\<newline>  },\<newline>''"
  have h1: "spaces ?ws"
    by (simp add: spaces_def str_def is_space_def)
  have h2: "\<not> is_space (last ?pre)"
    by (simp add: str_def is_space_def)
  then have h2': "?pre = [] \<or> \<not> is_space (last ?pre)" by simp
  have h3: "re_search parseTime_pattern (?pre @ ?ws @ str ''parseTime,\<newline>'' @ ?post)
      = Inr (Some ?post)"
    by (simp add: search_parseTime eval_defs)
  have tail: "rule1 ?post = Inr (str ''  meta: {\<newline>  },\<newline>'')"
    by (simp add: rule1_eq eval_defs)
  from rule1_removes_line [OF h1 h2' h3] tail h1 h2 h3 show ?thesis by auto
qed

text \<open>
  A line that is exactly \<^verbatim>\<open>parseTime,\<close> at the very start of the document has no
  whitespace before it and stays. Whitespace at the end of the line before the token
  belongs to the match and is removed with it.
\<close>

theorem rule1_line_start_fails:
  "rule1 (str ''parseTime,\<newline>b'') = Inr (str ''parseTime,\<newline>b'') \<and>
   rule1 (str ''parseTime,\<newline>b'') \<noteq> Inr (str ''b'') \<and>
   rule1 (str ''a \<newline> parseTime,\<newline>b'') = Inr (str ''a\<newline>b'')"
  by (simp add: rule1_eq eval_defs)

end
